theory Spec2Isabelle
  imports Main "HOL-Library.Monad_Syntax"
begin

section \<open>Go values\<close>

text \<open>
  The zero value of a Go type (\<^verbatim>\<open>*new(A)\<close>, and what a fresh struct field holds) is the
  constant \<open>default\<close> of the type: \<open>0\<close> for \<^verbatim>\<open>int\<close>, the nil slice for \<^verbatim>\<open>[]A\<close>. A slice is
  a list; the nil slice and the empty slice are both \<open>[]\<close> (they have the same length and
  the same elements).
\<close>

instantiation int :: default
begin

definition default_int_def: "default = (0::int)"

instance ..

end

instantiation list :: (type) default
begin

definition default_list_def: "default = ([]::'a list)"

instance ..

end

text \<open>
  A Go \<^verbatim>\<open>error\<close> made by \<^verbatim>\<open>errors.New\<close> or \<^verbatim>\<open>fmt.Errorf\<close> is a pointer to a freshly
  allocated string: two errors are \<^verbatim>\<open>==\<close> when they are the same allocation, whatever
  their texts. An \<open>error\<close> is the address together with the text; a value of the interface
  type \<^verbatim>\<open>error\<close> is an \<open>error option\<close>, \<open>None\<close> being \<^verbatim>\<open>nil\<close>.
\<close>

datatype error = errorString (addr: nat) (msg: string)

text \<open>\<^verbatim>\<open>fmt.Errorf(s)\<close> without verbs, the runtime allocating at address \<open>a\<close>.\<close>

definition fmt_Errorf :: "nat \<Rightarrow> string \<Rightarrow> error" where
  "fmt_Errorf a s = errorString a s"

section \<open>sync.RWMutex\<close>

text \<open>
  The lock is held by one writer or by any number of readers. \<open>Lock\<close> and \<open>RLock\<close> return
  \<open>None\<close> where the Go call blocks.
\<close>

record RWMutex =
  writer :: bool
  readers :: nat

definition Lock :: "RWMutex \<Rightarrow> RWMutex option" where
  "Lock m = (if writer m \<or> readers m \<noteq> 0 then None else Some (m\<lparr>writer := True\<rparr>))"

definition Unlock :: "RWMutex \<Rightarrow> RWMutex" where
  "Unlock m = m\<lparr>writer := False\<rparr>"

definition RLock :: "RWMutex \<Rightarrow> RWMutex option" where
  "RLock m = (if writer m then None else Some (m\<lparr>readers := Suc (readers m)\<rparr>))"

definition RUnlock :: "RWMutex \<Rightarrow> RWMutex" where
  "RUnlock m = m\<lparr>readers := readers m - 1\<rparr>"

section \<open>The Future and its goroutine (monad\_future.go)\<close>

text \<open>
  What a call of a function value yields: \<open>Some\<close> of the returned values, or \<open>None\<close> when
  the call never returns (it blocks or loops forever). Code that waits is written in the
  option monad, so that a wait that never ends ends the computation around it.
\<close>

type_synonym 'a outcome = "('a \<times> error option) option"

text \<open>
  The goroutine started by \<^verbatim>\<open>NewFuture\<close> is at one of the lines 23 to 29 of
  monad\_future.go, or has left its body; \<open>value\<close> and \<open>err\<close>, its local variables, exist
  from line 24 on and are last read on line 26.
\<close>

datatype 'a pc = L23 | L24 'a "error option" | L25 'a "error option" | L26 'a "error option"
  | L27 | L28 | L29 | Exit

text \<open>
  The struct \<^verbatim>\<open>Future[A]\<close> (fields \<open>f_value\<close> to \<open>f_waitChan\<close>; \<open>f_waitChan\<close> is true once the
  channel is closed), together with the one goroutine that writes it: the computation it
  calls and its program counter.
\<close>

record 'a Future =
  f_value :: 'a
  f_err :: "error option"
  f_done :: bool
  f_mutex :: RWMutex
  f_waitChan :: bool
  compute :: "'a outcome"
  pc :: "'a pc"

text \<open>One statement of the goroutine (lines 23 to 29). A blocked statement leaves the state as it is.\<close>

definition step :: "'a Future \<Rightarrow> 'a Future" where
  "step f =
     (case pc f of
        L23 \<Rightarrow> (case compute f of None \<Rightarrow> f | Some (value, err) \<Rightarrow> f\<lparr>pc := L24 value err\<rparr>)
      | L24 value err \<Rightarrow>
          (case Lock (f_mutex f) of None \<Rightarrow> f | Some m \<Rightarrow> f\<lparr>f_mutex := m, pc := L25 value err\<rparr>)
      | L25 value err \<Rightarrow> f\<lparr>f_value := value, pc := L26 value err\<rparr>
      | L26 value err \<Rightarrow> f\<lparr>f_err := err, pc := L27\<rparr>
      | L27 \<Rightarrow> f\<lparr>f_done := True, pc := L28\<rparr>
      | L28 \<Rightarrow> f\<lparr>f_mutex := Unlock (f_mutex f), pc := L29\<rparr>
      | L29 \<Rightarrow> f\<lparr>f_waitChan := True, pc := Exit\<rparr>
      | Exit \<Rightarrow> f)"

primrec steps :: "nat \<Rightarrow> 'a Future \<Rightarrow> 'a Future" where
  "steps 0 f = f"
| "steps (Suc n) f = steps n (step f)"

text \<open>The goroutine run to its end: its body has seven statements.\<close>

definition run :: "'a Future \<Rightarrow> 'a Future" where
  "run f = steps 7 f"

text \<open>
  \<^verbatim>\<open>NewFuture\<close> returns the handle as the \<^verbatim>\<open>go\<close> statement leaves it: the fields zeroed, the
  channel open, the goroutine before line 23.
\<close>

definition NewFuture :: "'a outcome \<Rightarrow> ('a::default) Future" where
  "NewFuture c =
     \<lparr>f_value = default, f_err = None, f_done = False,
      f_mutex = \<lparr>writer = False, readers = 0\<rparr>, f_waitChan = False,
      compute = c, pc = L23\<rparr>"

text \<open>
  What can happen to a handle while its goroutine and any number of waiters run side by
  side: the goroutine executes its next statement; a waiter that has passed the receive
  (line 75 or 87: the channel is closed) takes the read lock (line 76 or 88); a waiter
  holding the read lock returns, releasing it (line 77 or 89). \<open>act\<close> is \<open>None\<close> where the
  action is not possible in the state. A schedule is a list of actions; \<open>exec\<close> runs it.
\<close>

datatype action = Goroutine | WaiterRLock | WaiterRUnlock

fun act :: "action \<Rightarrow> 'a Future \<Rightarrow> 'a Future option" where
  "act Goroutine f = Some (step f)"
| "act WaiterRLock f =
     (if f_waitChan f then
        (case RLock (f_mutex f) of None \<Rightarrow> None | Some m \<Rightarrow> Some (f\<lparr>f_mutex := m\<rparr>))
      else None)"
| "act WaiterRUnlock f =
     (if 0 < readers (f_mutex f) then Some (f\<lparr>f_mutex := RUnlock (f_mutex f)\<rparr>) else None)"

fun exec :: "action list \<Rightarrow> 'a Future \<Rightarrow> 'a Future option" where
  "exec [] f = Some f"
| "exec (a # as) f = (case act a f of None \<Rightarrow> None | Some f' \<Rightarrow> exec as f')"

text \<open>
  The states a handle goes through, line by line: what the fields hold when the goroutine
  is at each line.
\<close>

definition at_line :: "'a Future \<Rightarrow> bool" where
  "at_line f =
     (case pc f of
        L23 \<Rightarrow> f_err f = None \<and> \<not> f_done f \<and> \<not> f_waitChan f
          \<and> f_mutex f = \<lparr>writer = False, readers = 0\<rparr>
      | L24 v e \<Rightarrow> compute f = Some (v, e) \<and> f_err f = None \<and> \<not> f_done f \<and> \<not> f_waitChan f
          \<and> f_mutex f = \<lparr>writer = False, readers = 0\<rparr>
      | L25 v e \<Rightarrow> compute f = Some (v, e) \<and> f_err f = None \<and> \<not> f_done f \<and> \<not> f_waitChan f
          \<and> f_mutex f = \<lparr>writer = True, readers = 0\<rparr>
      | L26 v e \<Rightarrow> compute f = Some (v, e) \<and> f_value f = v \<and> f_err f = None \<and> \<not> f_done f
          \<and> \<not> f_waitChan f
          \<and> f_mutex f = \<lparr>writer = True, readers = 0\<rparr>
      | L27 \<Rightarrow> compute f = Some (f_value f, f_err f) \<and> \<not> f_done f \<and> \<not> f_waitChan f
          \<and> f_mutex f = \<lparr>writer = True, readers = 0\<rparr>
      | L28 \<Rightarrow> compute f = Some (f_value f, f_err f) \<and> f_done f \<and> \<not> f_waitChan f
          \<and> f_mutex f = \<lparr>writer = True, readers = 0\<rparr>
      | L29 \<Rightarrow> compute f = Some (f_value f, f_err f) \<and> f_done f \<and> \<not> f_waitChan f
          \<and> f_mutex f = \<lparr>writer = False, readers = 0\<rparr>
      | Exit \<Rightarrow> compute f = Some (f_value f, f_err f) \<and> f_done f \<and> f_waitChan f
          \<and> \<not> writer (f_mutex f))"

text \<open>The handle of a computation that has returned \<open>(v, e)\<close>, its goroutine gone.\<close>

definition completed :: "'a \<Rightarrow> error option \<Rightarrow> 'a Future" where
  "completed v e =
     \<lparr>f_value = v, f_err = e, f_done = True,
      f_mutex = \<lparr>writer = False, readers = 0\<rparr>, f_waitChan = True,
      compute = Some (v, e), pc = Exit\<rparr>"

text \<open>
  \<^verbatim>\<open>Get\<close> (lines 74 to 79): the receive on line 75 returns once the channel is closed, the
  goroutine running on meanwhile; then the fields are read under the read lock, which the
  deferred \<^verbatim>\<open>RUnlock\<close> releases. The result is the pair read and the handle as the call
  leaves it.
\<close>

definition Get :: "'a Future \<Rightarrow> (('a \<times> error option) \<times> 'a Future) option" where
  "Get f =
     (let f' = run f in
      if \<not> f_waitChan f' then None
      else case RLock (f_mutex f') of
             None \<Rightarrow> None
           | Some m \<Rightarrow> Some ((f_value f', f_err f'), f'\<lparr>f_mutex := RUnlock m\<rparr>))"

text \<open>
  The moment at which the \<^verbatim>\<open>select\<close> of \<^verbatim>\<open>GetWithTimeout\<close> commits: how many statements the
  goroutine has executed since the call, how many nanoseconds have passed since the call,
  which case the runtime picks when both are ready (\<open>True\<close>: the first), and the address at
  which the runtime allocates next.
\<close>

record commit =
  progress :: nat
  elapsed :: int
  pick :: bool
  alloc :: nat

text \<open>
  \<^verbatim>\<open>GetWithTimeout\<close> (lines 85 to 94). The first case is ready when the channel is closed,
  the second when \<^verbatim>\<open>timeout\<close> nanoseconds have passed. \<open>None\<close>: no case is ready at this
  moment, and the select goes on waiting.
\<close>

definition GetWithTimeout ::
  "('a::default) Future \<Rightarrow> int \<Rightarrow> commit \<Rightarrow> (('a \<times> error option) \<times> 'a Future) option" where
  "GetWithTimeout f timeout s =
     (let f' = steps (progress s) f;
          ready1 = f_waitChan f';
          ready2 = (timeout \<le> elapsed s)
      in if ready1 \<and> (\<not> ready2 \<or> pick s) then
           (case RLock (f_mutex f') of
              None \<Rightarrow> None
            | Some m \<Rightarrow> Some ((f_value f', f_err f'), f'\<lparr>f_mutex := RUnlock m\<rparr>))
         else if ready2 then
           Some ((default, Some (fmt_Errorf (alloc s) ''timeout waiting for future'')), f')
         else None)"

text \<open>
  \<^verbatim>\<open>Map\<close> (lines 42 to 50). The transform is a Go function: a call of it may not return.
\<close>

definition Map :: "'a Future \<Rightarrow> ('a \<Rightarrow> 'b option) \<Rightarrow> ('b::default) Future" where
  "Map f fn =
     NewFuture (do {
       ((value, err), _) \<leftarrow> Get f;
       if err \<noteq> None then Some (default, err)
       else do { b \<leftarrow> fn value; Some (b, None) }
     })"

text \<open>\<^verbatim>\<open>FlatMap\<close> (lines 56 to 64).\<close>

definition FlatMap :: "'a Future \<Rightarrow> ('a \<Rightarrow> 'b Future option) \<Rightarrow> ('b::default) Future" where
  "FlatMap f fn =
     NewFuture (do {
       ((value, err), _) \<leftarrow> Get f;
       if err \<noteq> None then Some (default, err)
       else do { g \<leftarrow> fn value; (r, _) \<leftarrow> Get g; Some r }
     })"

text \<open>\<^verbatim>\<open>Successful\<close> (lines 100 to 104) and \<^verbatim>\<open>Failed\<close> (lines 110 to 114).\<close>

definition Successful :: "'a \<Rightarrow> ('a::default) Future" where
  "Successful value = NewFuture (Some (value, None))"

definition Failed :: "error option \<Rightarrow> ('a::default) Future" where
  "Failed err = NewFuture (Some (default, err))"

text \<open>
  The loop of \<^verbatim>\<open>Sequence\<close> (lines 123 to 129) over the handles from index \<open>i\<close> on, and
  \<^verbatim>\<open>Sequence\<close> (lines 120 to 132). On line 128 \<open>i\<close> is below the length of \<open>results\<close>.
\<close>

fun Sequence_loop :: "'a Future list \<Rightarrow> nat \<Rightarrow> 'a list \<Rightarrow> 'a list outcome" where
  "Sequence_loop [] i results = Some (results, None)"
| "Sequence_loop (future # futures) i results =
     do {
       ((value, err), _) \<leftarrow> Get future;
       if err \<noteq> None then Some ([], err)
       else Sequence_loop futures (Suc i) (results[i := value])
     }"

definition Sequence :: "('a::default) Future list \<Rightarrow> 'a list Future" where
  "Sequence futures =
     NewFuture (Sequence_loop futures 0 (replicate (length futures) default))"

section \<open>Safe access (safe.go)\<close>

text \<open>
  Modelled from the spec: the type \<^verbatim>\<open>Maybe\<close> with its constructors \<^verbatim>\<open>Just\<close> and \<^verbatim>\<open>Nothing\<close>
  is declared in a file that is not among the sources; the spec calls it the optional-value
  type of the safe-lookup helpers: a value that is present or absent.
\<close>

datatype 'a Maybe = Just 'a | Nothing


text \<open>
  \<^verbatim>\<open>parseNumber\<close> (lines 13 to 18). \<^verbatim>\<open>strconv.Atoi\<close> belongs to the Go library, not to this
  repository: it is the parameter \<open>Atoi\<close>, any function from strings to a number and an
  error or \<^verbatim>\<open>nil\<close>.
\<close>

definition parseNumber :: "(string \<Rightarrow> int \<times> error option) \<Rightarrow> string \<Rightarrow> int Maybe" where
  "parseNumber Atoi s = (case Atoi s of (num, None) \<Rightarrow> Just num | (num, Some err) \<Rightarrow> Nothing)"

section \<open>The goroutine and its waiters\<close>

lemma steps_add: "steps (m + n) f = steps n (steps m f)"
  by (induction m arbitrary: f) simp_all

lemma step_Exit: "pc f = Exit \<Longrightarrow> step f = f"
  by (simp add: step_def)

lemma steps_Exit: "pc f = Exit \<Longrightarrow> steps n f = f"
  by (induction n) (simp_all add: step_Exit)

lemma step_stuck: "pc f = L23 \<Longrightarrow> compute f = None \<Longrightarrow> step f = f"
  by (simp add: step_def)

lemma steps_stuck: "pc f = L23 \<Longrightarrow> compute f = None \<Longrightarrow> steps n f = f"
  by (induction n) (simp_all add: step_stuck)

lemma steps_NewFuture_None: "steps n (NewFuture None) = NewFuture None"
  by (rule steps_stuck) (simp_all add: NewFuture_def)

lemma run_NewFuture_Some: "run (NewFuture (Some (v, e))) = completed v e"
  by (simp add: run_def eval_nat_numeral NewFuture_def step_def Lock_def Unlock_def completed_def)

lemma Get_NewFuture_Some: "Get (NewFuture (Some (v, e))) = Some ((v, e), completed v e)"
  by (simp add: Get_def run_NewFuture_Some RLock_def RUnlock_def completed_def)

lemma Get_NewFuture_None: "Get (NewFuture None) = None"
  by (simp add: Get_def run_def steps_NewFuture_None) (simp add: NewFuture_def)

lemma at_line_NewFuture: "at_line (NewFuture c)"
  by (simp add: at_line_def NewFuture_def)

lemma compute_step: "compute (step f) = compute f"
  by (simp add: step_def split: pc.splits option.splits)

lemma compute_act: "act a f = Some f' \<Longrightarrow> compute f' = compute f"
  by (cases a) (auto simp: compute_step split: if_splits option.splits)

lemma at_line_step: "at_line f \<Longrightarrow> at_line (step f)"
  by (cases "pc f") (auto simp: at_line_def step_def Lock_def Unlock_def split: option.splits)

lemma at_line_act: "at_line f \<Longrightarrow> act a f = Some f' \<Longrightarrow> at_line f'"
proof (cases a)
  case Goroutine
  assume "at_line f" "act a f = Some f'"
  with Goroutine show ?thesis by (auto simp: at_line_step)
next
  case WaiterRLock
  assume "at_line f" "act a f = Some f'"
  with WaiterRLock show ?thesis
    by (cases "pc f") (auto simp: at_line_def RLock_def split: if_splits)
next
  case WaiterRUnlock
  assume "at_line f" "act a f = Some f'"
  with WaiterRUnlock show ?thesis
    by (cases "pc f") (auto simp: at_line_def RUnlock_def split: if_splits)
qed

lemma at_line_exec: "at_line f \<Longrightarrow> exec as f = Some f' \<Longrightarrow> at_line f'"
  by (induction as arbitrary: f) (auto split: option.splits dest: at_line_act)

lemma compute_exec: "exec as f = Some f' \<Longrightarrow> compute f' = compute f"
  by (induction as arbitrary: f) (auto split: option.splits dest: compute_act)

lemma compute_NewFuture: "compute (NewFuture c) = c"
  by (simp add: NewFuture_def)

lemma exec_steps: "exec (replicate n Goroutine) f = Some (steps n f)"
  by (induction n arbitrary: f) simp_all

lemma run_at_line:
  assumes "at_line f" "compute f = Some (v, e)"
  shows "run f = \<lparr>f_value = v, f_err = e, f_done = True,
      f_mutex = \<lparr>writer = False, readers = readers (f_mutex f)\<rparr>, f_waitChan = True,
      compute = Some (v, e), pc = Exit\<rparr>"
  using assms
  by (cases f; cases "pc f")
     (auto simp: at_line_def run_def eval_nat_numeral step_def Lock_def Unlock_def)

lemma Get_at_line:
  assumes "at_line f" "compute f = Some (v, e)"
  shows "Get f = Some ((v, e), run f)"
  using assms by (simp add: Get_def Let_def run_at_line RLock_def RUnlock_def)

lemma stuck_at_line:
  assumes "at_line f" "compute f = None"
  shows "pc f = L23"
  using assms by (cases "pc f") (auto simp: at_line_def)

lemma Get_at_line_None:
  assumes "at_line f" "compute f = None"
  shows "Get f = None"
proof -
  have "pc f = L23" using assms by (rule stuck_at_line)
  then have "run f = f" using assms(2) by (simp add: run_def steps_stuck)
  moreover have "\<not> f_waitChan f" using assms(1) \<open>pc f = L23\<close> by (simp add: at_line_def)
  ultimately show ?thesis by (simp add: Get_def)
qed

lemma Get_reachable:
  assumes "exec as (NewFuture c) = Some f"
  shows "map_option fst (Get f) = c"
proof -
  have a: "at_line f" using at_line_NewFuture assms by (rule at_line_exec)
  have c: "compute f = c" using compute_exec [OF assms] by (simp add: compute_NewFuture)
  show ?thesis
  proof (cases c)
    case None
    with a c show ?thesis by (simp add: Get_at_line_None)
  next
    case (Some r)
    with a c show ?thesis by (cases r) (simp add: Get_at_line)
  qed
qed




lemma at_line_steps: "at_line f \<Longrightarrow> at_line (steps n f)"
  using at_line_exec [OF _ exec_steps] .

lemma compute_steps: "compute (steps n f) = compute f"
  using compute_exec [OF exec_steps] .

lemma waitChan_at_line:
  assumes "at_line f" "f_waitChan f"
  shows "f_done f \<and> compute f = Some (f_value f, f_err f) \<and> \<not> writer (f_mutex f) \<and> pc f = Exit"
  using assms by (cases "pc f") (auto simp: at_line_def)



text \<open>
  \<open>Get\<close> does not return exactly when the channel is never closed, and \<open>GetWithTimeout\<close>
  returns once the timer has fired.
\<close>

lemma Get_None_iff:
  assumes "at_line f"
  shows "Get f = None \<longleftrightarrow> (\<forall>n. \<not> f_waitChan (steps n f))"
proof (cases "compute f")
  case None
  have p: "pc f = L23" using assms None by (rule stuck_at_line)
  then have "steps n f = f" for n using None by (simp add: steps_stuck)
  moreover have "\<not> f_waitChan f" using assms p by (simp add: at_line_def)
  ultimately show ?thesis using Get_at_line_None [OF assms None] by simp
next
  case (Some r)
  obtain v e where r: "r = (v, e)" by (cases r)
  have "Get f = Some ((v, e), run f)" using assms Some r by (simp add: Get_at_line)
  moreover have "f_waitChan (steps 7 f)"
    using run_at_line [OF assms, of v e] Some r by (simp add: run_def)
  ultimately show ?thesis by auto
qed

lemma GetWithTimeout_returns:
  assumes "at_line f" "timeout \<le> elapsed k"
  shows "GetWithTimeout f timeout k \<noteq> None"
proof -
  let ?f = "steps (progress k) f"
  have a: "at_line ?f" using assms(1) by (rule at_line_steps)
  show ?thesis
  proof (cases "f_waitChan ?f")
    case True
    then have "\<not> writer (f_mutex ?f)" using waitChan_at_line [OF a] by simp
    then show ?thesis using assms(2) by (simp add: GetWithTimeout_def Let_def RLock_def)
  next
    case False
    then show ?thesis using assms(2) by (simp add: GetWithTimeout_def Let_def)
  qed
qed


lemma exec_append:
  "exec (as @ bs) f = (case exec as f of None \<Rightarrow> None | Some f' \<Rightarrow> exec bs f')"
  by (induction as arbitrary: f) (auto split: option.splits)

text \<open>
  A call of \<open>Get\<close> that returns is one of the schedules: the goroutine runs to its end, the
  waiter takes the read lock, reads the two fields and releases the lock.
\<close>

lemma Get_schedule:
  assumes "Get f = Some (r, s)"
  shows "\<exists>h. exec (replicate 7 Goroutine @ [WaiterRLock]) f = Some h
           \<and> r = (f_value h, f_err h) \<and> act WaiterRUnlock h = Some s"
proof -
  from assms obtain m where w: "f_waitChan (run f)" and m: "RLock (f_mutex (run f)) = Some m"
    and r: "r = (f_value (run f), f_err (run f))" and s: "s = (run f)\<lparr>f_mutex := RUnlock m\<rparr>"
    by (auto simp: Get_def Let_def split: if_splits option.splits)
  let ?h = "(run f)\<lparr>f_mutex := m\<rparr>"
  have "exec (replicate 7 Goroutine @ [WaiterRLock]) f = Some ?h"
    using w m by (simp add: exec_append exec_steps run_def)
  moreover have "r = (f_value ?h, f_err ?h)" using r by simp
  moreover have "act WaiterRUnlock ?h = Some s"
    using m s by (auto simp: RLock_def split: if_splits)
  ultimately show ?thesis by blast
qed

text \<open>
  What a waiter gets from a handle, in whatever state it finds it, is what the computation
  of the handle returns.
\<close>

lemma Get_NewFuture: "map_option fst (Get (NewFuture c)) = c"
  using Get_reachable [of "[]" c] by simp

lemma Get_steps_NewFuture: "map_option fst (Get (steps n (NewFuture c))) = c"
  using Get_reachable [OF exec_steps] .

lemma Get_Successful: "map_option fst (Get (Successful v)) = Some (v, None)"
  by (simp add: Successful_def Get_NewFuture)

lemma Get_Failed: "map_option fst (Get (Failed e)) = Some (default, e)"
  by (simp add: Failed_def Get_NewFuture)

lemma Get_Some_fst: "map_option fst (Get f) = Some r \<Longrightarrow> \<exists>s. Get f = Some (r, s)"
  by (cases "Get f") auto

section \<open>The combinators\<close>

lemma Map_Get:
  "map_option fst (Get (Map f fn)) =
     (case map_option fst (Get f) of
        None \<Rightarrow> None
      | Some (v, e) \<Rightarrow>
          if e \<noteq> None then Some (default, e)
          else (case fn v of None \<Rightarrow> None | Some b \<Rightarrow> Some (b, None)))"
  unfolding Map_def Get_NewFuture
  by (cases "Get f") (auto split: option.splits prod.splits)

lemma FlatMap_Get:
  "map_option fst (Get (FlatMap f fn)) =
     (case map_option fst (Get f) of
        None \<Rightarrow> None
      | Some (v, e) \<Rightarrow>
          if e \<noteq> None then Some (default, e)
          else (case fn v of None \<Rightarrow> None | Some g \<Rightarrow> map_option fst (Get g)))"
  unfolding FlatMap_def Get_NewFuture
  by (cases "Get f") (auto split: option.splits prod.splits simp: map_option_case)

lemma Map_failed_any:
  assumes "map_option fst (Get f) = Some (v, Some E)"
  shows "Map f fn = Map f fn'"
proof -
  from assms obtain s where "Get f = Some ((v, Some E), s)" by (auto dest: Get_Some_fst)
  then show ?thesis by (simp add: Map_def)
qed

lemma FlatMap_failed_any:
  assumes "map_option fst (Get f) = Some (v, Some E)"
  shows "FlatMap f fn = FlatMap f fn'"
proof -
  from assms obtain s where "Get f = Some ((v, Some E), s)" by (auto dest: Get_Some_fst)
  then show ?thesis by (simp add: FlatMap_def)
qed

text \<open>
  The loop of \<open>Sequence\<close>: while the inputs succeed, the results fill the slice from
  index \<open>i\<close> on; the first input that fails ends the loop, and an input that never
  completes holds it.
\<close>

lemma Sequence_loop_ok:
  assumes "list_all2 (\<lambda>f v. map_option fst (Get f) = Some (v, None)) futures vs"
    and "length results = i + length futures"
  shows "Sequence_loop futures i results = Some (take i results @ vs, None)"
  using assms
proof (induction futures vs arbitrary: i results rule: list_all2_induct)
  case Nil
  then show ?case by simp
next
  case (Cons f futures v vs)
  from Cons.hyps(1) obtain s where g: "Get f = Some ((v, None), s)"
    by (auto dest: Get_Some_fst)
  have i: "i < length results" using Cons.prems by simp
  have "length (results[i := v]) = Suc i + length futures" using Cons.prems by simp
  then have "Sequence_loop futures (Suc i) (results[i := v])
      = Some (take (Suc i) (results[i := v]) @ vs, None)"
    by (rule Cons.IH)
  moreover have "take (Suc i) (results[i := v]) = take i results @ [v]"
    using i by (simp add: take_Suc_conv_app_nth)
  ultimately show ?case using g by simp
qed

lemma Sequence_loop_fail:
  assumes "list_all2 (\<lambda>f v. map_option fst (Get f) = Some (v, None)) pre vs"
    and "map_option fst (Get f) = Some (v, Some E)"
  shows "Sequence_loop (pre @ f # post) i results = Some ([], Some E)"
  using assms(1)
proof (induction pre vs arbitrary: i results rule: list_all2_induct)
  case Nil
  from assms(2) obtain s where "Get f = Some ((v, Some E), s)" by (auto dest: Get_Some_fst)
  then show ?case by simp
next
  case (Cons g pre w vs)
  from Cons.hyps(1) obtain s where "Get g = Some ((w, None), s)" by (auto dest: Get_Some_fst)
  then show ?case using Cons.IH by simp
qed

lemma Sequence_loop_block:
  assumes "list_all2 (\<lambda>f v. map_option fst (Get f) = Some (v, None)) pre vs"
    and "Get f = None"
  shows "Sequence_loop (pre @ f # post) i results = None"
  using assms(1)
proof (induction pre vs arbitrary: i results rule: list_all2_induct)
  case Nil
  show ?case using assms(2) by simp
next
  case (Cons g pre w vs)
  from Cons.hyps(1) obtain s where "Get g = Some ((w, None), s)" by (auto dest: Get_Some_fst)
  then show ?case using Cons.IH by simp
qed

section \<open>Claims about the handle\<close>





text \<open>
  C8. For every value \<open>v\<close>, \<open>Get\<close> on \<open>Successful v\<close> returns \<open>v\<close> and \<^verbatim>\<open>nil\<close> on every call,
  any number of times, one after the other or side by side; \<open>Successful\<close> and \<open>Failed\<close> are
  \<open>NewFuture\<close> with a computation that returns at once. Here \<open>f\<close> is the handle after any
  schedule of its goroutine and of other waiters: the call returns the pair and leaves the
  handle completed, and a call on the handle so left returns the same pair and leaves the
  same handle, so that every further call does.
\<close>

theorem resolved_idempotent:
  "(\<forall>as f. exec as (Successful v) = Some f \<longrightarrow>
      Get f = Some ((v, None), run f) \<and> Get (run f) = Some ((v, None), run f))
   \<and> Successful v = NewFuture (Some (v, None))
   \<and> Failed e = NewFuture (Some (default, e))"
proof -
  have "Get f = Some ((v, None), run f) \<and> Get (run f) = Some ((v, None), run f)"
    if r: "exec as (Successful v) = Some f" for as f
  proof -
    have r': "exec as (NewFuture (Some (v, None))) = Some f" using r by (simp add: Successful_def)
    have a: "at_line f" using at_line_NewFuture r' by (rule at_line_exec)
    have c: "compute f = Some (v, None)" using compute_exec [OF r'] by (simp add: compute_NewFuture)
    have g: "Get f = Some ((v, None), run f)" using a c by (rule Get_at_line)
    have a': "at_line (run f)" unfolding run_def using a by (rule at_line_steps)
    have c': "compute (run f) = Some (v, None)" unfolding run_def using c by (simp add: compute_steps)
    have "pc (run f) = Exit" using run_at_line [OF a c] by simp
    then have "run (run f) = run f" unfolding run_def [of "run f"] by (rule steps_Exit)
    then have "Get (run f) = Some ((v, None), run f)" using Get_at_line [OF a' c'] by simp
    with g show ?thesis by simp
  qed
  then show ?thesis by (simp add: Successful_def Failed_def)
qed

theorem resolved_idempotent_witness:
  "exec [Goroutine, Goroutine] (Successful (7::int)) = Some (steps 2 (Successful 7))
   \<and> Get (steps 2 (Successful (7::int))) = Some ((7, None), completed 7 None)
   \<and> Get (completed (7::int) None) = Some ((7, None), completed 7 None)"
proof -
  have h: "exec [Goroutine, Goroutine] (Successful (7::int)) = Some (steps 2 (Successful 7))"
    by (simp add: eval_nat_numeral)
  have r: "run (steps 2 (Successful (7::int))) = completed 7 None"
    by (simp add: run_def eval_nat_numeral Successful_def NewFuture_def step_def Lock_def
        Unlock_def completed_def)
  from resolved_idempotent [of 7] h
  have "Get (steps 2 (Successful (7::int))) = Some ((7, None), run (steps 2 (Successful 7)))
      \<and> Get (run (steps 2 (Successful (7::int)))) = Some ((7, None), run (steps 2 (Successful 7)))"
    by blast
  with h r show ?thesis by simp
qed

section \<open>Claims about the combinators\<close>

text \<open>
  C5. For every error \<open>E\<close> and transform \<open>fn\<close>, \<open>Get\<close> on \<open>Map (Failed E) fn\<close> yields the zero
  value of the target type together with \<open>E\<close>, and \<open>fn\<close> is never invoked; on a successful
  input, \<open>Map\<close> applies \<open>fn\<close> to the value and succeeds with the result. The transform is
  any function, also one whose calls never return: on a failed input the handle built is
  the one built from the transform that returns on no input, and it completes.
\<close>

theorem Map_short_circuit:
  "map_option fst (Get (Map (Failed (Some E)) fn)) = Some (default, Some E)
   \<and> Map (Failed (Some E)) (fn :: 'a::default \<Rightarrow> 'b::default option)
     = Map (Failed (Some E)) (\<lambda>x::'a. None)
   \<and> (map_option fst (Get f) = Some (v, None) \<and> fn' v = Some b \<longrightarrow>
        map_option fst (Get (Map f fn')) = Some (b, None))"
proof -
  have 1: "map_option fst (Get (Map (Failed (Some E)) fn)) = Some (default, Some E)"
    by (simp add: Map_Get Get_Failed)
  have 2: "Map (Failed (Some E)) fn = Map (Failed (Some E)) (\<lambda>x::'a. None)"
    by (rule Map_failed_any) (rule Get_Failed)
  have 3: "map_option fst (Get (Map f fn')) = Some (b, None)"
    if "map_option fst (Get f) = Some (v, None)" and "fn' v = Some b"
    using that by (auto simp: Map_Get)
  from 1 2 3 show ?thesis by blast
qed

theorem Map_short_circuit_witness:
  "map_option fst (Get (Successful (21::int))) = Some (21, None)
   \<and> map_option fst (Get (Map (Successful (21::int)) (\<lambda>x. Some (x * 2)))) = Some (42::int, None)
   \<and> map_option fst (Get (Map (Failed (Some (errorString 0 ''E'')) :: int Future)
        (\<lambda>x. None :: int option)))
     = Some (0, Some (errorString 0 ''E''))"
proof -
  let ?E = "errorString 0 ''E''"
  have h: "map_option fst (Get (Successful (21::int))) = Some (21, None)"
    by (simp add: Get_Successful)
  note t = Map_short_circuit [where E = ?E and fn = "\<lambda>x::int. None :: int option"
      and f = "Successful (21::int)" and v = 21 and fn' = "\<lambda>x. Some (x * 2)" and b = 42]
  have "Some ((21::int) * 2) = Some 42" by simp
  with t h have a: "map_option fst (Get (Map (Successful (21::int)) (\<lambda>x. Some (x * 2))))
      = Some (42::int, None)" by blast
  from t have "map_option fst (Get (Map (Failed (Some ?E) :: int Future)
        (\<lambda>x. None :: int option))) = Some (default, Some ?E)"
    by blast
  then have b: "map_option fst (Get (Map (Failed (Some ?E) :: int Future)
        (\<lambda>x. None :: int option))) = Some (0, Some ?E)"
    by (simp only: default_int_def)
  from h a b show ?thesis by simp
qed

text \<open>
  C4. For every handle and bind function, \<open>FlatMap\<close> propagates a failure of the input
  without invoking the bind function; on a successful input it invokes the bind function
  on the value, and the outer handle takes the outcome of the inner handle as it is, value
  or failure (and does not complete when the inner handle does not);
  \<open>FlatMap (Successful 5) (\<lambda>n. Successful (n + 1))\<close> yields \<open>6\<close> and \<^verbatim>\<open>nil\<close>. The bind function
  is any function, also one whose calls never return: on a failed input the handle built
  is the one built from the function that returns on no input.
\<close>

theorem FlatMap_adopts:
  "(map_option fst (Get f) = Some (v, Some E) \<longrightarrow>
      map_option fst (Get (FlatMap f fn)) = Some (default, Some E)
      \<and> FlatMap f fn = FlatMap f (\<lambda>x. None))
   \<and> (map_option fst (Get f) = Some (v, None) \<and> fn v = Some g \<longrightarrow>
      map_option fst (Get (FlatMap f fn)) = map_option fst (Get g))
   \<and> map_option fst (Get (FlatMap (Successful (5::int)) (\<lambda>n. Some (Successful (n + 1)))))
      = Some (6::int, None)"
proof -
  have 1: "map_option fst (Get (FlatMap f fn)) = Some (default, Some E)
      \<and> FlatMap f fn = FlatMap f (\<lambda>x. None)"
    if h: "map_option fst (Get f) = Some (v, Some E)"
  proof -
    have "map_option fst (Get (FlatMap f fn)) = Some (default, Some E)"
      using h by (auto simp: FlatMap_Get)
    moreover have "FlatMap f fn = FlatMap f (\<lambda>x. None)"
      by (rule FlatMap_failed_any [OF h])
    ultimately show ?thesis by blast
  qed
  have 2: "map_option fst (Get (FlatMap f fn)) = map_option fst (Get g)"
    if "map_option fst (Get f) = Some (v, None)" and "fn v = Some g"
    using that by (auto simp: FlatMap_Get)
  have 3: "map_option fst (Get (FlatMap (Successful (5::int)) (\<lambda>n. Some (Successful (n + 1)))))
      = Some (6::int, None)"
    by (simp add: FlatMap_Get Get_Successful)
  from 1 2 3 show ?thesis by blast
qed

theorem FlatMap_adopts_witness:
  "map_option fst (Get (Failed (Some (errorString 0 ''E'')) :: int Future))
     = Some (0, Some (errorString 0 ''E''))
   \<and> map_option fst (Get (FlatMap (Failed (Some (errorString 0 ''E'')) :: int Future)
        (\<lambda>n. None :: int Future option)))
     = Some (0, Some (errorString 0 ''E''))
   \<and> map_option fst (Get (Successful (21::int))) = Some (21, None)
   \<and> map_option fst (Get (FlatMap (Successful (21::int))
        (\<lambda>x. Some (Failed (Some (errorString 1 ''inner computation failed'')) :: int Future))))
     = Some (0, Some (errorString 1 ''inner computation failed''))"
proof -
  let ?E = "errorString 0 ''E''"
  let ?I = "errorString 1 ''inner computation failed''"
  have h1: "map_option fst (Get (Failed (Some ?E) :: int Future)) = Some (0, Some ?E)"
    by (simp add: Get_Failed default_int_def)
  have h2: "map_option fst (Get (Successful (21::int))) = Some (21, None)"
    by (simp add: Get_Successful)
  have a: "map_option fst (Get (FlatMap (Failed (Some ?E) :: int Future)
        (\<lambda>n. None :: int Future option))) = Some (0, Some ?E)"
    using FlatMap_adopts [where f = "Failed (Some ?E) :: int Future" and v = 0 and E = ?E
        and fn = "\<lambda>n. None :: int Future option"] h1
    by (simp add: default_int_def)
  have b: "map_option fst (Get (FlatMap (Successful (21::int))
        (\<lambda>x. Some (Failed (Some ?I) :: int Future)))) = Some (0, Some ?I)"
    using FlatMap_adopts [where f = "Successful (21::int)" and v = 21
        and fn = "\<lambda>x. Some (Failed (Some ?I) :: int Future)" and g = "Failed (Some ?I)"] h2
    by (simp add: Get_Failed default_int_def)
  from h1 h2 a b show ?thesis by simp
qed

text \<open>
  C6. For every list of handles that all succeed, \<open>Sequence\<close> waits on each input in the
  order of the arguments and puts the result of input \<open>i\<close> at position \<open>i\<close> of the output,
  whichever computation finishes first; on \<open>Successful 1\<close>, \<open>Successful 2\<close>, \<open>Successful 3\<close>
  it yields \<open>[1, 2, 3]\<close> and \<^verbatim>\<open>nil\<close>. The inputs are handles in any state, of which only
  the outcome is known. The order of the waits shows where an input never completes:
  the output then never completes, whatever the inputs after it are.
\<close>

theorem Sequence_order:
  "(list_all2 (\<lambda>f v. map_option fst (Get f) = Some (v, None)) futures vs \<longrightarrow>
      map_option fst (Get (Sequence futures)) = Some (vs, None))
   \<and> (list_all2 (\<lambda>f v. map_option fst (Get f) = Some (v, None)) pre ws \<and> Get g = None \<longrightarrow>
      Get (Sequence (pre @ g # post)) = None)
   \<and> map_option fst (Get (Sequence [Successful (1::int), Successful 2, Successful 3]))
      = Some ([1, 2, 3], None)"
proof -
  have 1: "map_option fst (Get (Sequence futures)) = Some (vs, None)"
    if h: "list_all2 (\<lambda>f v. map_option fst (Get f) = Some (v, None)) futures vs"
    for futures :: "'d::default Future list" and vs
    using Sequence_loop_ok [OF h, of "replicate (length futures) default" 0]
    by (simp add: Sequence_def Get_NewFuture)
  have 2: "Get (Sequence (pre @ g # post)) = None"
    if h: "list_all2 (\<lambda>f v. map_option fst (Get f) = Some (v, None)) pre ws" and n: "Get g = None"
    using Sequence_loop_block [OF h n] by (simp add: Sequence_def Get_NewFuture_None)
  have 3: "map_option fst (Get (Sequence [Successful (1::int), Successful 2, Successful 3]))
      = Some ([1, 2, 3], None)"
    by (rule 1) (simp add: Successful_def Get_NewFuture_Some)
  from 1 2 3 show ?thesis by blast
qed

theorem Sequence_order_witness:
  "list_all2 (\<lambda>f v. map_option fst (Get f) = Some (v, None))
     [Successful (1::int), run (Successful 2), steps 3 (Successful 3)] [1, 2, 3]
   \<and> map_option fst (Get (Sequence [Successful (1::int), run (Successful 2), steps 3 (Successful 3)]))
     = Some ([1, 2, 3], None)
   \<and> Get (NewFuture None :: int Future) = None
   \<and> Get (Sequence [Successful (1::int), NewFuture None, Failed (Some (errorString 0 ''E''))])
     = None"
proof -
  have h: "list_all2 (\<lambda>f v. map_option fst (Get f) = Some (v, None))
     [Successful (1::int), run (Successful 2), steps 3 (Successful 3)] [1, 2, 3]"
    unfolding run_def Successful_def list_all2_Cons Get_steps_NewFuture Get_NewFuture by simp
  have h': "list_all2 (\<lambda>f v. map_option fst (Get f) = Some (v, None)) [Successful (1::int)] [1]"
    unfolding list_all2_Cons Get_Successful by simp
  have n: "Get (NewFuture None :: int Future) = None" by (rule Get_NewFuture_None)
  have a: "map_option fst
      (Get (Sequence [Successful (1::int), run (Successful 2), steps 3 (Successful 3)]))
     = Some ([1, 2, 3], None)"
    using Sequence_order [where futures = "[Successful (1::int), run (Successful 2), steps 3 (Successful 3)]"
        and vs = "[1, 2, 3]"] h
    by blast
  have "Get (Sequence ([Successful (1::int)] @ NewFuture None # [Failed (Some (errorString 0 ''E''))]))
     = None"
    using Sequence_order [where futures = "[] :: int Future list" and vs = "[]"
        and pre = "[Successful (1::int)]" and ws = "[1]"
        and g = "NewFuture None :: int Future" and post = "[Failed (Some (errorString 0 ''E''))]"]
      h' n
    by blast
  then have b: "Get (Sequence [Successful (1::int), NewFuture None, Failed (Some (errorString 0 ''E''))])
     = None"
    by simp
  from h n a b show ?thesis by simp
qed

text \<open>
  C7. \<open>Sequence\<close> of no handle gives a handle that succeeds with the empty sequence and
  \<^verbatim>\<open>nil\<close>.
\<close>

theorem Sequence_empty:
  "Get (Sequence ([] :: 'a::default Future list)) = Some (([], None), completed [] None)"
  by (simp add: Sequence_def Get_NewFuture_Some)

text \<open>
  C1, as the code has it. For every list of handles, \<open>Sequence\<close> fails with the error of the
  first input that fails, in the order of the arguments, and its output sequence is empty;
  the inputs after it are not waited for: the output is this whatever they are, also when
  one of them never completes. (The claim has them waited for before the output handle
  completes: the theorem after this one is an input on which the output handle completes
  and a later input never does.)
\<close>

theorem Sequence_first_failure:
  assumes "list_all2 (\<lambda>f v. map_option fst (Get f) = Some (v, None)) pre vs"
    and "map_option fst (Get f) = Some (v, Some E)"
  shows "map_option fst (Get (Sequence (pre @ f # post))) = Some ([], Some E)"
  using Sequence_loop_fail [OF assms] by (simp add: Sequence_def Get_NewFuture)

theorem Sequence_first_failure_witness:
  "list_all2 (\<lambda>f v. map_option fst (Get f) = Some (v, None)) [Successful (1::int)] [1]
   \<and> map_option fst (Get (Failed (Some (errorString 0 ''E'')) :: int Future))
     = Some (0, Some (errorString 0 ''E''))
   \<and> map_option fst (Get (Sequence
        [Successful (1::int), Failed (Some (errorString 0 ''E'')), Successful 3]))
     = Some ([], Some (errorString 0 ''E''))"
proof -
  let ?E = "errorString 0 ''E''"
  have h1: "list_all2 (\<lambda>f v. map_option fst (Get f) = Some (v, None)) [Successful (1::int)] [1]"
    unfolding list_all2_Cons Get_Successful by simp
  have h2: "map_option fst (Get (Failed (Some ?E) :: int Future)) = Some (0, Some ?E)"
    by (simp add: Get_Failed default_int_def)
  from Sequence_first_failure [OF h1 h2, of "[Successful 3]"] h1 h2 show ?thesis by simp
qed

text \<open>
  C1, as the claim states it, fails on \<open>Successful 1\<close>, \<open>Failed E\<close> and a handle whose
  computation never returns: the output handle completes, with the empty sequence and \<open>E\<close>,
  and the handle at index 2 never completes.
\<close>

theorem Sequence_later_not_awaited:
  "map_option fst (Get (Sequence
      [Successful (1::int), Failed (Some (errorString 0 ''E'')), NewFuture None]))
     = Some ([], Some (errorString 0 ''E''))
   \<and> Get (NewFuture None :: int Future) = None"
  by (simp add: Sequence_def Successful_def Failed_def Get_NewFuture_Some Get_NewFuture_None)

section \<open>Claims about safe access\<close>



text \<open>
  C10. For every string \<open>s\<close>, \<open>parseNumber s\<close> returns \<open>Just n\<close> exactly when \<open>Atoi\<close> parses
  \<open>s\<close> as the integer \<open>n\<close>, and \<open>Nothing\<close> for every string that \<open>Atoi\<close> rejects; the error
  of \<open>Atoi\<close> is dropped: the result does not hold it, and is the same for every error.
\<close>

theorem parseNumber_Atoi:
  "(parseNumber Atoi s = Just n \<longleftrightarrow> Atoi s = (n, None))
   \<and> (parseNumber Atoi s = Nothing \<longleftrightarrow> (\<exists>n e. Atoi s = (n, Some e)))"
  by (cases "Atoi s") (auto simp: parseNumber_def split: option.splits)

theorem parseNumber_Atoi_witness:
  "parseNumber (\<lambda>s. if s = ''42'' then (42, None) else (0, Some (errorString 0 ''invalid syntax'')))
     ''42'' = Just 42
   \<and> parseNumber (\<lambda>s. if s = ''42'' then (42, None) else (0, Some (errorString 0 ''invalid syntax'')))
     ''4x'' = Nothing"
  using parseNumber_Atoi [of "\<lambda>s. if s = ''42'' then (42, None) else (0, Some (errorString 0 ''invalid syntax''))" "''42''" 42]
    parseNumber_Atoi [of "\<lambda>s. if s = ''42'' then (42, None) else (0, Some (errorString 0 ''invalid syntax''))" "''4x''"]
  by simp

end
